theory Spec2Isabelle
  imports Complex_Main "HOL-Library.Word" "HOL-Library.Log_Nat"
begin

unbundle bit_operations_syntax

section \<open>Data model\<close>

text \<open>
  A bibliography entry is a JavaScript object whose properties are strings: the citation
  key under \<open>key\<close> and the fields of the entry under their upper-cased names. Reading a
  property that the object does not have gives \<open>undefined\<close>, which is \<open>None\<close> here.
  Property reads are reads of the object's own properties: the names the program looks up
  are \<open>key\<close> and upper-cased names, none of which is inherited from the prototype.
  A string is a list of code units, here the code units below 256, and \<open>length\<close> is
  JavaScript's \<open>.length\<close>.
\<close>

type_synonym entry = "string \<rightharpoonup> string"

text \<open>Every failure of the matching code is a \<open>TypeError\<close>: a property read on \<open>undefined\<close>.\<close>

datatype error = TypeError

text \<open>The result of both strategies: the object \<open>{AB: [], OnlyA: [], OnlyB: []}\<close>.\<close>

datatype status = Status (AB: "entry list") (OnlyA: "entry list") (OnlyB: "entry list")

section \<open>Approximate matching\<close>

text \<open>
  JavaScript numbers are binary64 floating-point numbers. A number is given here by its
  exact value, a rational. \<open>double x\<close> is the binary64 number nearest to a rational
  \<open>x\<close> that is 0 or positive and within the normal range: with \<open>2 ^ e \<le> x < 2 ^ (e + 1)\<close>
  it is the multiple of \<open>2 ^ (e - 52)\<close> nearest to \<open>x\<close>, the one with an even
  significand when two are equally near. It is the result of a division of two numbers
  whose exact quotient is \<open>x\<close>, and the value of a decimal literal that denotes \<open>x\<close>.
\<close>

definition roundEven :: "rat \<Rightarrow> int" where
  "roundEven y =
     (let f = \<lfloor>y\<rfloor>; r = y - of_int f
      in if r < 1 / 2 then f else if 1 / 2 < r then f + 1 else if even f then f else f + 1)"

text \<open>The exponent \<open>e\<close> with \<open>2 ^ e \<le> x < 2 ^ (e + 1)\<close>, for positive \<open>x\<close>.\<close>

definition binade :: "rat \<Rightarrow> int" where
  "binade x =
     (let (a, b) = quotient_of x; p = bitlen a - bitlen b
      in if 2 powi p \<le> x then p else p - 1)"

definition double :: "rat \<Rightarrow> rat" where
  "double x =
     (if x = 0 then 0
      else let u = 2 powi (binade x - 52) in of_int (roundEven (x / u)) * u)"

text \<open>\<open>const SIMILARITY_RATE = 0.3\<close>\<close>

definition SIMILARITY_RATE :: rat where
  "SIMILARITY_RATE = double (3 / 10)"

text \<open>
  Modelled from the spec: the edit distance \<open>leven\<close> is a package the program requires,
  not a file of the repository. The spec names it the Levenshtein distance: the least
  number of insertions, deletions and substitutions of one code unit that turn one string
  into the other.
\<close>

fun levenshtein :: "string \<Rightarrow> string \<Rightarrow> nat" where
  "levenshtein [] ys = length ys"
| "levenshtein xs [] = length xs"
| "levenshtein (x # xs) (y # ys) =
     (if x = y then levenshtein xs ys
      else 1 + min (levenshtein xs (y # ys)) (min (levenshtein (x # xs) ys) (levenshtein xs ys)))"

text \<open>
  Modelled from the spec: \<open>leven(left, right)\<close> as the program calls it, on property
  values that may be \<open>undefined\<close>. The package answers 0 at once for identical arguments
  (\<open>left === right\<close>) and otherwise reads \<open>.length\<close> of both, which throws on
  \<open>undefined\<close>.
\<close>

definition leven :: "string option \<Rightarrow> string option \<Rightarrow> error + nat" where
  "leven left right =
     (if left = right then Inr 0
      else case (left, right) of
             (Some a, Some b) \<Rightarrow> Inr (levenshtein a b)
           | _ \<Rightarrow> Inl TypeError)"

text \<open>\<open>v.length\<close>: a \<open>TypeError\<close> when \<open>v\<close> is \<open>undefined\<close>.\<close>

definition strLength :: "string option \<Rightarrow> error + nat" where
  "strLength v = (case v of None \<Rightarrow> Inl TypeError | Some s \<Rightarrow> Inr (length s))"

text \<open>\<open>n || 1\<close> on a number: 0 is falsy.\<close>

definition orOne :: "nat \<Rightarrow> nat" where
  "orOne n = (if n = 0 then 1 else n)"

text \<open>
  \<open>newLeven / max\<close>: the division of two numbers that hold naturals (a distance and a
  length, both far below \<open>2 ^ 53\<close> and so held exactly).
\<close>

definition similarityOf :: "nat \<Rightarrow> nat \<Rightarrow> rat" where
  "similarityOf newLeven mx = double (of_nat newLeven / of_nat mx)"

text \<open>The two local variables of \<open>findSmallestSimilar\<close> that the loops update.\<close>

datatype search = Search (smallest: "entry option") (computedLeven: "string \<rightharpoonup> nat")

text \<open>
  \<open>computedLeven[field] || leven(element[field], smallest[field])\<close>: the recorded
  distance when there is one and it is not 0, the distance computed afresh otherwise.
\<close>

definition currLevenOf :: "search \<Rightarrow> entry \<Rightarrow> entry \<Rightarrow> string \<Rightarrow> error + nat" where
  "currLevenOf st element sm field =
     (case computedLeven st field of
        Some n \<Rightarrow> if n \<noteq> 0 then Inr n else leven (element field) (sm field)
      | None \<Rightarrow> leven (element field) (sm field))"

text \<open>
  The inner loop \<open>for (field of fields)\<close> for one candidate \<open>el\<close>. Every \<open>break\<close> returns
  the state; falling through the body goes on with the next field.
\<close>

fun fieldLoop :: "entry \<Rightarrow> entry \<Rightarrow> string list \<Rightarrow> search \<Rightarrow> error + search" where
  "fieldLoop element el [] st = Inr st"
| "fieldLoop element el (field # rest) st =
     (case leven (element field) (el field) of
        Inl e \<Rightarrow> Inl e
      | Inr newLeven \<Rightarrow>
     (case strLength (element field) of
        Inl e \<Rightarrow> Inl e
      | Inr la \<Rightarrow>
     (case strLength (el field) of
        Inl e \<Rightarrow> Inl e
      | Inr lb \<Rightarrow>
        if similarityOf newLeven (max (orOne la) (orOne lb)) > SIMILARITY_RATE then Inr st
        else
          (case smallest st of
             None \<Rightarrow> Inr (Search (Some el) [field \<mapsto> newLeven])
           | Some sm \<Rightarrow>
               (case currLevenOf st element sm field of
                  Inl e \<Rightarrow> Inl e
                | Inr currLeven \<Rightarrow>
                    if newLeven > currLeven then Inr st
                    else if currLeven > newLeven
                      then Inr (Search (Some el) [field \<mapsto> newLeven])
                    else fieldLoop element el rest st)))))"

text \<open>The outer loop \<open>for (let el of list)\<close>.\<close>

fun candidateLoop :: "entry \<Rightarrow> string list \<Rightarrow> entry list \<Rightarrow> search \<Rightarrow> error + search" where
  "candidateLoop element fields [] st = Inr st"
| "candidateLoop element fields (el # rest) st =
     (case fieldLoop element el fields st of
        Inl e \<Rightarrow> Inl e
      | Inr st' \<Rightarrow> candidateLoop element fields rest st')"

definition findSmallestSimilar :: "entry \<Rightarrow> string list \<Rightarrow> entry list \<Rightarrow> error + entry option" where
  "findSmallestSimilar element fields list =
     (case candidateLoop element fields list (Search None Map.empty) of
        Inl e \<Rightarrow> Inl e
      | Inr st \<Rightarrow> Inr (smallest st))"

text \<open>
  The first loop of \<open>bruteforceStrategy\<close>, over \<open>origBib\<close>: an entry goes to \<open>AB\<close> when the
  search in \<open>destBib\<close> returns a candidate, to \<open>OnlyA\<close> otherwise.
\<close>

fun originLoop :: "string list \<Rightarrow> entry list \<Rightarrow> entry list \<Rightarrow> status \<Rightarrow> error + status" where
  "originLoop fields destBib [] st = Inr st"
| "originLoop fields destBib (el # rest) st =
     (case findSmallestSimilar el fields destBib of
        Inl e \<Rightarrow> Inl e
      | Inr similar \<Rightarrow>
          if similar \<noteq> None
          then originLoop fields destBib rest (Status (AB st @ [el]) (OnlyA st) (OnlyB st))
          else originLoop fields destBib rest (Status (AB st) (OnlyA st @ [el]) (OnlyB st)))"

text \<open>
  The second loop, over \<open>destBib\<close>: an entry goes to \<open>OnlyB\<close> when the search in
  \<open>origBib\<close> returns nothing; there is no other branch.
\<close>

fun destinyLoop :: "string list \<Rightarrow> entry list \<Rightarrow> entry list \<Rightarrow> status \<Rightarrow> error + status" where
  "destinyLoop fields origBib [] st = Inr st"
| "destinyLoop fields origBib (el # rest) st =
     (case findSmallestSimilar el fields origBib of
        Inl e \<Rightarrow> Inl e
      | Inr similar \<Rightarrow>
          if similar = None
          then destinyLoop fields origBib rest (Status (AB st) (OnlyA st) (OnlyB st @ [el]))
          else destinyLoop fields origBib rest st)"

definition bruteforceStrategy :: "string list \<Rightarrow> entry list \<Rightarrow> entry list \<Rightarrow> error + status" where
  "bruteforceStrategy fields origBib destBib =
     (case originLoop fields destBib origBib (Status [] [] []) of
        Inl e \<Rightarrow> Inl e
      | Inr st \<Rightarrow> destinyLoop fields origBib destBib st)"

section \<open>Field names\<close>

text \<open>
  \<open>fields.map(field => field == 'key' ? field : field.toUpperCase())\<close>. The upper-casing
  of the runtime follows the Unicode tables and is a parameter here.
\<close>

definition normalizeFields :: "(string \<Rightarrow> string) \<Rightarrow> string list \<Rightarrow> string list" where
  "normalizeFields toUpperCase fields =
     map (\<lambda>field. if field = ''key'' then field else toUpperCase field) fields"

text \<open>What \<open>toUpperCase\<close> does to a name of ASCII code units.\<close>

definition toUpperCaseASCII :: "string \<Rightarrow> string" where
  "toUpperCaseASCII str =
     map (\<lambda>c. case map_of (zip ''abcdefghijklmnopqrstuvwxyz'' ''ABCDEFGHIJKLMNOPQRSTUVWXYZ'') c of
               Some u \<Rightarrow> u
             | None \<Rightarrow> c) str"

section \<open>The digest\<close>

text \<open>
  Modelled from the spec: \<open>crypto.createHash('sha256').update(str, 'utf8').digest('hex')\<close>
  is the runtime's, not a file of the repository. It is the 256-bit digest SHA-256 of
  FIPS 180-4 over the UTF-8 bytes of the string, written as 64 lower-case hexadecimal
  digits.
\<close>

type_synonym u32 = "32 word"

type_synonym hstate = "u32 \<times> u32 \<times> u32 \<times> u32 \<times> u32 \<times> u32 \<times> u32 \<times> u32"

text \<open>
  The constants of the standard are given by what defines them: the first 32 bits of the
  fractional parts of the cube roots of the first 64 primes (the round constants) and of
  the square roots of the first 8 primes (the initial hash value).
\<close>

definition isPrime :: "nat \<Rightarrow> bool" where
  "isPrime n = (2 \<le> n \<and> list_all (\<lambda>d. n mod d \<noteq> 0) [2..<n])"

text \<open>The first 64 primes; the last is 311.\<close>

definition primes :: "nat list" where
  "primes = filter isPrime [2..<312]"

text \<open>
  The greatest \<open>r\<close> below \<open>2 ^ i\<close> past its start with \<open>r ^ k \<le> n\<close>, found bit by bit
  from the highest.
\<close>

fun rootFrom :: "nat \<Rightarrow> nat \<Rightarrow> nat \<Rightarrow> nat \<Rightarrow> nat" where
  "rootFrom k n 0 r = r"
| "rootFrom k n (Suc i) r = rootFrom k n i (if (r + 2 ^ i) ^ k \<le> n then r + 2 ^ i else r)"

definition fractionBits :: "nat \<Rightarrow> nat \<Rightarrow> u32" where
  "fractionBits k p = of_nat (rootFrom k (p * 2 ^ (32 * k)) 40 0 mod 2 ^ 32)"

definition K256 :: "u32 list" where
  "K256 = map (fractionBits 3) primes"

definition H256 :: hstate where
  "H256 = (fractionBits 2 2, fractionBits 2 3, fractionBits 2 5, fractionBits 2 7,
           fractionBits 2 11, fractionBits 2 13, fractionBits 2 17, fractionBits 2 19)"

definition rotr :: "nat \<Rightarrow> u32 \<Rightarrow> u32" where
  "rotr n x = (drop_bit n x) OR (push_bit (32 - n) x)"

definition Ch :: "u32 \<Rightarrow> u32 \<Rightarrow> u32 \<Rightarrow> u32" where
  "Ch x y z = (x AND y) XOR (NOT x AND z)"

definition Maj :: "u32 \<Rightarrow> u32 \<Rightarrow> u32 \<Rightarrow> u32" where
  "Maj x y z = (x AND y) XOR (x AND z) XOR (y AND z)"

definition Sigma0 :: "u32 \<Rightarrow> u32" where
  "Sigma0 x = rotr 2 x XOR rotr 13 x XOR rotr 22 x"

definition Sigma1 :: "u32 \<Rightarrow> u32" where
  "Sigma1 x = rotr 6 x XOR rotr 11 x XOR rotr 25 x"

definition sigma0 :: "u32 \<Rightarrow> u32" where
  "sigma0 x = rotr 7 x XOR rotr 18 x XOR drop_bit 3 x"

definition sigma1 :: "u32 \<Rightarrow> u32" where
  "sigma1 x = rotr 17 x XOR rotr 19 x XOR drop_bit 10 x"

text \<open>The UTF-8 bytes of one code unit: one byte below 128, two bytes from 128 on.\<close>

definition utf8 :: "char \<Rightarrow> nat list" where
  "utf8 c = (let n = of_char c in if n < 128 then [n] else [192 + n div 64, 128 + n mod 64])"

text \<open>
  Padding: the byte 128, zero bytes up to 56 modulo 64, and the length of the message in
  bits as eight bytes, the most significant first.
\<close>

definition pad :: "nat list \<Rightarrow> nat list" where
  "pad bs =
     (let l = length bs
      in bs @ [128] @ replicate ((119 - l mod 64) mod 64) 0 @
         map (\<lambda>i. (8 * l) div 256 ^ (7 - i) mod 256) [0..<8])"

fun words :: "nat list \<Rightarrow> u32 list" where
  "words (a # b # c # d # bs) = of_nat (((a * 256 + b) * 256 + c) * 256 + d) # words bs"
| "words _ = []"

text \<open>The message schedule: \<open>n\<close> more words after the sixteen of the block.\<close>

fun schedule :: "nat \<Rightarrow> u32 list \<Rightarrow> u32 list" where
  "schedule 0 w = w"
| "schedule (Suc n) w =
     (let t = length w
      in schedule n
           (w @ [sigma1 (w ! (t - 2)) + w ! (t - 7) + sigma0 (w ! (t - 15)) + w ! (t - 16)]))"

fun round1 :: "hstate \<Rightarrow> u32 \<times> u32 \<Rightarrow> hstate" where
  "round1 (a, b, c, d, e, f, g, h) (k, w) =
     (let T1 = h + Sigma1 e + Ch e f g + k + w; T2 = Sigma0 a + Maj a b c
      in (T1 + T2, a, b, c, d + T1, e, f, g))"

fun addState :: "hstate \<Rightarrow> hstate \<Rightarrow> hstate" where
  "addState (a, b, c, d, e, f, g, h) (a', b', c', d', e', f', g', h') =
     (a + a', b + b', c + c', d + d', e + e', f + f', g + g', h + h')"

definition compress :: "hstate \<Rightarrow> u32 list \<Rightarrow> hstate" where
  "compress hs block = addState hs (foldl round1 hs (zip K256 (schedule 48 block)))"

fun blocks :: "nat \<Rightarrow> u32 list \<Rightarrow> hstate \<Rightarrow> hstate" where
  "blocks 0 ws hs = hs"
| "blocks (Suc n) ws hs = blocks n (drop 16 ws) (compress hs (take 16 ws))"

definition sha256 :: "nat list \<Rightarrow> hstate" where
  "sha256 bs = (let ws = words (pad bs) in blocks (length ws div 16) ws H256)"

definition hexDigit :: "nat \<Rightarrow> char" where
  "hexDigit n = ''0123456789abcdef'' ! (n mod 16)"

definition hexWord :: "u32 \<Rightarrow> string" where
  "hexWord w = map (\<lambda>i. hexDigit (unat w div 16 ^ (7 - i))) [0..<8]"

fun hexState :: "hstate \<Rightarrow> string" where
  "hexState (a, b, c, d, e, f, g, h) = concat (map hexWord [a, b, c, d, e, f, g, h])"

definition hash :: "string \<Rightarrow> string" where
  "hash str = hexState (sha256 (concat (map utf8 str)))"

section \<open>Exact matching\<close>

text \<open>\<open>v || ''\<close> on a property value: \<open>undefined\<close> and the empty string are falsy.\<close>

definition orEmpty :: "string option \<Rightarrow> string" where
  "orEmpty v = (case v of None \<Rightarrow> [] | Some s \<Rightarrow> if s = [] then [] else s)"

text \<open>\<open>Array.prototype.join\<close>: the separator stands between neighbours only.\<close>

fun joinWith :: "string \<Rightarrow> string list \<Rightarrow> string" where
  "joinWith sep [] = []"
| "joinWith sep [x] = x"
| "joinWith sep (x # y # ys) = x @ sep @ joinWith sep (y # ys)"

definition getKey :: "entry \<Rightarrow> string list \<Rightarrow> string" where
  "getKey el fields = hash (joinWith ''###'' (map (\<lambda>field. orEmpty (el field)) fields))"

text \<open>
  The lookup table is a plain object used as a dictionary. Its keys are digests, 64
  hexadecimal digits, so none of them is an array index and none is inherited: the object
  enumerates its keys in the order of their first insertion. It is an association list
  in that order, with one pair for each key.
\<close>

type_synonym table = "(string \<times> entry) list"

text \<open>
  \<open>table[key] = el\<close>: a key the table has keeps its place and gets the new value; a new
  key goes to the end.
\<close>

fun tableSet :: "table \<Rightarrow> string \<Rightarrow> entry \<Rightarrow> table" where
  "tableSet [] key el = [(key, el)]"
| "tableSet ((k, v) # rest) key el =
     (if k = key then (k, el) # rest else (k, v) # tableSet rest key el)"

text \<open>\<open>table[key]\<close>\<close>

definition tableGet :: "table \<Rightarrow> string \<Rightarrow> entry option" where
  "tableGet t key = map_of t key"

text \<open>The loop \<open>for (el of list)\<close> of \<open>buildLookupTable\<close>.\<close>

fun buildLoop :: "string list \<Rightarrow> entry list \<Rightarrow> table \<Rightarrow> table" where
  "buildLoop fields [] t = t"
| "buildLoop fields (el # rest) t = buildLoop fields rest (tableSet t (getKey el fields) el)"

definition buildLookupTable :: "entry list \<Rightarrow> string list \<Rightarrow> table" where
  "buildLookupTable list fields = buildLoop fields list []"

text \<open>
  The loop \<open>for (let key in listA)\<close>. It runs over the pairs of the table: the second
  component of a pair is \<open>listA[key]\<close>, the value stored under its key.
\<close>

fun originKeys :: "table \<Rightarrow> (string \<times> entry) list \<Rightarrow> status \<Rightarrow> status" where
  "originKeys listB [] st = st"
| "originKeys listB ((key, v) # rest) st =
     (if tableGet listB key \<noteq> None
      then originKeys listB rest (Status (AB st @ [v]) (OnlyA st) (OnlyB st))
      else originKeys listB rest (Status (AB st) (OnlyA st @ [v]) (OnlyB st)))"

text \<open>The loop \<open>for (let key in listB)\<close>.\<close>

fun destinyKeys :: "table \<Rightarrow> (string \<times> entry) list \<Rightarrow> status \<Rightarrow> status" where
  "destinyKeys listA [] st = st"
| "destinyKeys listA ((key, v) # rest) st =
     (if tableGet listA key = None
      then destinyKeys listA rest (Status (AB st) (OnlyA st) (OnlyB st @ [v]))
      else destinyKeys listA rest st)"

definition hashStrategy :: "string list \<Rightarrow> entry list \<Rightarrow> entry list \<Rightarrow> status" where
  "hashStrategy fields origBib destBib =
     (let listA = buildLookupTable origBib fields;
          listB = buildLookupTable destBib fields
      in destinyKeys listA listB (originKeys listB listA (Status [] [] [])))"

section \<open>Notions the properties are stated with\<close>

text \<open>The last entry of a collection whose fingerprint is \<open>key\<close>.\<close>

fun lastWithKey :: "string list \<Rightarrow> entry list \<Rightarrow> string \<Rightarrow> entry option" where
  "lastWithKey fields [] key = None"
| "lastWithKey fields (el # rest) key =
     (case lastWithKey fields rest key of
        Some e \<Rightarrow> Some e
      | None \<Rightarrow> if getKey el fields = key then Some el else None)"

text \<open>
  A candidate passes the threshold check on the first compared field: there is a first
  field, both values can be measured, and the quotient does not exceed the rate.
\<close>

definition passesFirst :: "entry \<Rightarrow> string list \<Rightarrow> entry \<Rightarrow> bool" where
  "passesFirst element fields el =
     (case fields of
        [] \<Rightarrow> False
      | field # rest \<Rightarrow>
          (case (element field, el field) of
             (Some a, Some b) \<Rightarrow>
               \<not> similarityOf (levenshtein a b) (max (orOne (length a)) (orOne (length b)))
                   > SIMILARITY_RATE
           | _ \<Rightarrow> False))"

text \<open>
  The normalized edit distance of two field values: the Levenshtein distance divided by
  the longer length, the divisor being at least 1. This is the exact quotient.
\<close>

definition normalizedDistance :: "string \<Rightarrow> string \<Rightarrow> rat" where
  "normalizedDistance a b =
     of_nat (levenshtein a b) / of_nat (max (orOne (length a)) (orOne (length b)))"

text \<open>An entry has every listed field.\<close>

definition hasFields :: "string list \<Rightarrow> entry \<Rightarrow> bool" where
  "hasFields fields el = list_all (\<lambda>field. el field \<noteq> None) fields"

text \<open>
  The spec's rule for a candidate against the best so far, with every distance taken
  from the two field values themselves: going through the fields in order, a candidate
  whose quotient exceeds the rate is abandoned; with no best so far it becomes the best;
  with a distance strictly greater than that of the best so far for the field it is
  abandoned, with a strictly smaller one it becomes the best, and with an equal one the
  next field decides. A candidate that runs out of fields is abandoned.
\<close>

fun takesOver :: "entry \<Rightarrow> string list \<Rightarrow> entry option \<Rightarrow> entry \<Rightarrow> bool" where
  "takesOver element [] best el = False"
| "takesOver element (field # rest) best el =
     (case (element field, el field) of
        (Some a, Some b) \<Rightarrow>
          if SIMILARITY_RATE
               < similarityOf (levenshtein a b) (max (orOne (length a)) (orOne (length b)))
          then False
          else (case best of
                  None \<Rightarrow> True
                | Some sm \<Rightarrow>
                    (case sm field of
                       Some c \<Rightarrow>
                         if levenshtein a c < levenshtein a b then False
                         else if levenshtein a b < levenshtein a c then True
                         else takesOver element rest best el
                     | None \<Rightarrow> False))
      | _ \<Rightarrow> False)"

text \<open>The best so far after each candidate of the list in turn, starting with none.\<close>

definition bestSoFar :: "entry \<Rightarrow> string list \<Rightarrow> entry list \<Rightarrow> entry option" where
  "bestSoFar element fields list =
     foldl (\<lambda>best el. if takesOver element fields best el then Some el else best) None list"

text \<open>The edit distance of the record and a candidate on one field.\<close>

definition fieldDistance :: "entry \<Rightarrow> string \<Rightarrow> entry \<Rightarrow> nat" where
  "fieldDistance element field el =
     (case (element field, el field) of (Some a, Some b) \<Rightarrow> levenshtein a b | _ \<Rightarrow> 0)"

text \<open>
  The recorded distances of a search state are those of its best so far: a distance
  recorded for a field is the edit distance of the record's and the best candidate's
  values of that field.
\<close>

definition coherent :: "entry \<Rightarrow> search \<Rightarrow> bool" where
  "coherent element st =
     (\<forall>sm f n. smallest st = Some sm \<longrightarrow> computedLeven st f = Some n \<longrightarrow>
        (\<exists>a c. element f = Some a \<and> sm f = Some c \<and> n = levenshtein a c))"

section \<open>Facts about numbers\<close>

text \<open>
  Rounding to the nearest binary64 number moves a positive number by at most the
  \<open>2 ^ 53\<close>-th part of itself.
\<close>

lemma roundEven_err: "\<bar>of_int (roundEven y) - y\<bar> \<le> 1 / 2"
proof -
  have "of_int \<lfloor>y\<rfloor> \<le> y" "y < of_int \<lfloor>y\<rfloor> + 1"
    by linarith+
  then show ?thesis
    unfolding roundEven_def Let_def by (auto simp: abs_le_iff) 
qed

lemma binade_le:
  assumes "0 < x"
  shows "2 powi (binade x) \<le> x"
proof -
  obtain a b where q: "quotient_of x = (a, b)"
    by (cases "quotient_of x")
  have b: "0 < b" using q by (rule quotient_of_denom_pos)
  have x: "x = of_int a / of_int b" using q by (rule quotient_of_div)
  have a: "0 < a" using assms b x
    by (simp add: zero_less_divide_iff)
  define p where "p = bitlen a - bitlen b"
  show ?thesis
  proof (cases "2 powi p \<le> x")
    case True
    then show ?thesis by (simp add: binade_def q p_def)
  next
    case False
    have la: "1 \<le> bitlen a" and lb: "1 \<le> bitlen b"
      using a b by (auto simp: bitlen_alt_def)
    have "(2::int) ^ nat (bitlen a - 1) \<le> a" and "b < 2 ^ nat (bitlen b)"
      using bitlen_bounds [OF a] bitlen_bounds [OF b] by auto
    then have 1: "(2::rat) ^ nat (bitlen a - 1) \<le> of_int a" and 2: "of_int b \<le> (2::rat) ^ nat (bitlen b)"
      by (metis of_int_le_iff of_int_numeral of_int_power, metis less_imp_le of_int_le_iff of_int_numeral of_int_power)
    have pe: "p - 1 = (bitlen a - 1) - bitlen b"
      by (simp add: p_def)
    have "(2::rat) powi (p - 1) = 2 powi ((bitlen a - 1) - bitlen b)"
      by (simp only: pe)
    also have "\<dots> = 2 powi (bitlen a - 1) / 2 powi (bitlen b)"
      by (rule power_int_diff) simp
    also have "\<dots> = 2 ^ nat (bitlen a - 1) / 2 ^ nat (bitlen b)"
      using la lb by (simp add: power_int_nonneg_exp)
    also have "\<dots> \<le> of_int a / of_int b"
      using 1 2 a b by (intro frac_le) auto
    finally have "2 powi (p - 1) \<le> x" using x by simp
    with False show ?thesis by (simp add: binade_def q p_def)
  qed
qed

lemma double_err:
  assumes "0 < x"
  shows "\<bar>double x - x\<bar> \<le> x / 2 ^ 53"
proof -
  define u :: rat where "u = 2 powi (binade x - 52)"
  have u: "0 < u" by (simp add: u_def)
  have "double x - x = u * (of_int (roundEven (x / u)) - x / u)"
    using assms u by (simp add: double_def u_def [symmetric] Let_def algebra_simps)
  then have "\<bar>double x - x\<bar> = u * \<bar>of_int (roundEven (x / u)) - x / u\<bar>"
    using u by (simp add: abs_mult)
  also have "\<dots> \<le> u * (1 / 2)"
    using u roundEven_err [of "x / u"] by (intro mult_left_mono) auto
  also have "\<dots> = 2 powi (binade x) / 2 ^ 53"
    by (simp add: u_def power_int_diff)
  also have "\<dots> \<le> x / 2 ^ 53"
    using binade_le [OF assms] by (simp add: divide_right_mono)
  finally show ?thesis .
qed

lemma exceeds_iff:
  assumes m: "0 < m" and nm: "n \<le> m" and bound: "m \<le> 2 ^ 32"
  shows "(SIMILARITY_RATE < similarityOf n m) = (3 * m < 10 * n)"
proof -
  define q :: rat where "q = of_nat n / of_nat m"
  define t :: rat where "t = 3 / 10"
  define eps :: rat where "eps = 1 / 2 ^ 53"
  define g :: rat where "g = 1 / (10 * of_nat m)"
  have q1: "q \<le> 1" using m nm by (simp add: q_def)
  have q0: "0 \<le> q" by (simp add: q_def)
  have "\<bar>double t - t\<bar> \<le> t / 2 ^ 53"
    by (rule double_err) (simp add: t_def)
  also have "\<dots> \<le> eps"
    by (simp add: t_def eps_def)
  finally have te: "\<bar>double t - t\<bar> \<le> eps" .
  have qe: "\<bar>double q - q\<bar> \<le> eps"
  proof (cases "q = 0")
    case True
    then show ?thesis by (simp add: double_def eps_def)
  next
    case False
    then have "0 < q" using q0 by simp
    then have "\<bar>double q - q\<bar> \<le> q / 2 ^ 53" by (rule double_err)
    also have "\<dots> \<le> 1 / 2 ^ 53" using q1 by (simp add: divide_right_mono)
    finally show ?thesis by (simp add: eps_def)
  qed
  have mr: "(of_nat m :: rat) \<le> 2 ^ 32" 
    using bound by (metis of_nat_le_iff of_nat_numeral of_nat_power)
  have mpos: "0 < (of_nat m :: rat)" using m by simp
  have "1 / (10 * 2 ^ 32) \<le> 1 / (10 * (of_nat m :: rat))"
    using mr mpos by (intro divide_left_mono) auto
  moreover have "2 * eps < 1 / (10 * 2 ^ 32)"
    by (simp add: eps_def)
  ultimately have gap: "2 * eps < g"
    by (simp add: g_def)
  have unf: "(SIMILARITY_RATE < similarityOf n m) = (double t < double q)"
    by (simp add: SIMILARITY_RATE_def similarityOf_def q_def t_def)
  consider (gt) "3 * m < 10 * n" | (lt) "10 * n < 3 * m" | (eq) "10 * n = 3 * m"
    by linarith
  then show ?thesis
  proof cases
    case gt
    then have "3 * int m + 1 \<le> 10 * int n" by linarith
    then have "3 * (of_nat m :: rat) + 1 \<le> 10 * of_nat n"
      by (metis (mono_tags, opaque_lifting) of_int_of_nat_eq of_int_le_iff of_int_add of_int_mult of_int_numeral of_int_1)
    then have "(3 * of_nat m + 1) / (10 * of_nat m) \<le> 10 * of_nat n / (10 * (of_nat m :: rat))"
      using mpos by (intro divide_right_mono) auto
    moreover have "(3 * of_nat m + 1) / (10 * of_nat m) = t + 1 / (10 * (of_nat m :: rat))"
      using mpos by (simp add: t_def add_divide_distrib)
    moreover have "10 * of_nat n / (10 * (of_nat m :: rat)) = q"
      by (simp add: q_def)
    ultimately have "t + g \<le> q"
      by (simp add: g_def)
    with gap te qe have "double t < double q"
      by linarith
    with gt show ?thesis by (simp add: unf)
  next
    case lt
    then have "10 * int n + 1 \<le> 3 * int m" by linarith
    then have "10 * (of_nat n :: rat) + 1 \<le> 3 * of_nat m"
      by (metis (mono_tags, opaque_lifting) of_int_of_nat_eq of_int_le_iff of_int_add of_int_mult of_int_numeral of_int_1)
    then have "(10 * of_nat n + 1) / (10 * of_nat m) \<le> 3 * of_nat m / (10 * (of_nat m :: rat))"
      using mpos by (intro divide_right_mono) auto
    moreover have "(10 * of_nat n + 1) / (10 * of_nat m) = q + 1 / (10 * (of_nat m :: rat))"
      using mpos by (simp add: q_def add_divide_distrib)
    moreover have "3 * of_nat m / (10 * (of_nat m :: rat)) = t"
      using mpos by (simp add: t_def)
    ultimately have "q + g \<le> t"
      by (simp add: g_def)
    with gap te qe have "double q < double t"
      by linarith
    with lt show ?thesis by (simp add: unf)
  next
    case eq
    then have "10 * (of_nat n :: rat) = 3 * of_nat m"
      by (metis of_nat_mult of_nat_numeral)
    then have "q = t" using mpos by (simp add: q_def t_def field_simps)
    then have "double q = double t"
      by (rule arg_cong)
    then show ?thesis using eq by (simp add: unf)
  qed
qed

section \<open>Facts about the edit distance\<close>

lemma levenshtein_same: "levenshtein a a = 0"
  by (induction a) auto

lemma levenshtein_le_max: "levenshtein a b \<le> max (length a) (length b)"
  by (induction a b rule: levenshtein.induct) auto

lemma leven_Some: "leven (Some a) (Some b) = Inr (levenshtein a b)"
  by (simp add: leven_def levenshtein_same)

lemma leven_le_orOne:
  "levenshtein a b \<le> max (orOne (length a)) (orOne (length b))"
  using levenshtein_le_max [of a b] by (auto simp: orOne_def max_def split: if_splits)

lemma orOne_pos: "0 < max (orOne la) (orOne lb)"
  by (simp add: orOne_def max_def)

lemma orOne_bound: "la \<le> 2 ^ 32 \<Longrightarrow> lb \<le> 2 ^ 32 \<Longrightarrow> max (orOne la) (orOne lb) \<le> 2 ^ 32"
  by (simp add: orOne_def max_def)

lemma rejects_iff:
  assumes "length a \<le> 2 ^ 32" "length b \<le> 2 ^ 32"
  shows "(SIMILARITY_RATE < similarityOf (levenshtein a b) (max (orOne (length a)) (orOne (length b))))
       = (3 * max (orOne (length a)) (orOne (length b)) < 10 * levenshtein a b)"
  by (rule exceeds_iff [OF orOne_pos leven_le_orOne orOne_bound [OF assms]])

lemma normalizedDistance_exceeds:
  "(3 / 10 < normalizedDistance a b)
     = (3 * max (orOne (length a)) (orOne (length b)) < 10 * levenshtein a b)"
proof -
  define m where "m = max (orOne (length a)) (orOne (length b))"
  define n where "n = levenshtein a b"
  have m: "0 < (of_nat m :: rat)" using orOne_pos [of "length a" "length b"] by (simp add: m_def)
  have "(3 / 10 < (of_nat n :: rat) / of_nat m) = (3 * (of_nat m :: rat) < 10 * of_nat n)"
    using m by (simp add: field_simps)
  also have "\<dots> = ((of_nat (3 * m) :: rat) < of_nat (10 * n))"
    by simp
  also have "\<dots> = (3 * m < 10 * n)"
    by (rule of_nat_less_iff)
  finally show ?thesis by (simp add: normalizedDistance_def m_def n_def)
qed

lemma single_candidate:
  assumes "element field = Some a" and "el field = Some b"
    and "length a \<le> 2 ^ 32" and "length b \<le> 2 ^ 32"
  shows "findSmallestSimilar element [field] [el] =
           Inr (if 3 * max (orOne (length a)) (orOne (length b)) < 10 * levenshtein a b
                then None else Some el)"
  using assms(1,2) rejects_iff [OF assms(3,4)]
  by (simp add: findSmallestSimilar_def leven_Some strLength_def)

section \<open>Facts about the search\<close>

lemma strLength_Inr: "strLength v = Inr n \<Longrightarrow> \<exists>s. v = Some s \<and> n = length s"
  by (auto simp: strLength_def split: option.splits)

lemma fieldLoop_first:
  assumes "smallest st = None" and "fieldLoop element el fields st = Inr st'"
  shows "if passesFirst element fields el then smallest st' = Some el else st' = st"
proof (cases fields)
  case Nil
  with assms show ?thesis by (simp add: passesFirst_def)
next
  case (Cons field rest)
  with assms show ?thesis
    by (auto simp: passesFirst_def strLength_def leven_Some
        split: sum.splits option.splits if_splits)
qed

lemma fieldLoop_keeps_or_takes:
  assumes "smallest st = Some sm" and "fieldLoop element el fields st = Inr st'"
  shows "smallest st' = Some sm \<or> smallest st' = Some el"
  using assms
  by (induction fields) (auto split: sum.splits option.splits if_splits)

lemma candidateLoop_found:
  assumes "smallest st = Some sm" and "candidateLoop element fields list st = Inr st'"
  shows "\<exists>c. smallest st' = Some c \<and> (c = sm \<or> c \<in> set list)"
  using assms
proof (induction list arbitrary: st sm)
  case Nil
  then show ?case by simp
next
  case (Cons el rest)
  from Cons.prems(2) obtain st1 where 1: "fieldLoop element el fields st = Inr st1"
    and 2: "candidateLoop element fields rest st1 = Inr st'"
    by (auto split: sum.splits)
  from fieldLoop_keeps_or_takes [OF Cons.prems(1) 1]
  consider "smallest st1 = Some sm" | "smallest st1 = Some el" by blast
  then show ?case
  proof cases
    case 1
    from Cons.IH [OF this 2] show ?thesis by auto
  next
    case 2
    from Cons.IH [OF this \<open>candidateLoop element fields rest st1 = Inr st'\<close>]
    show ?thesis by auto
  qed
qed

lemma candidateLoop_none:
  assumes "smallest st = None" and "candidateLoop element fields list st = Inr st'"
  shows "(smallest st' = None \<longleftrightarrow> (\<forall>el \<in> set list. \<not> passesFirst element fields el))
       \<and> (\<forall>c. smallest st' = Some c \<longrightarrow> c \<in> set list)"
  using assms
proof (induction list arbitrary: st)
  case Nil
  then show ?case by simp
next
  case (Cons el rest)
  from Cons.prems(2) obtain st1 where 1: "fieldLoop element el fields st = Inr st1"
    and 2: "candidateLoop element fields rest st1 = Inr st'"
    by (auto split: sum.splits)
  show ?case
  proof (cases "passesFirst element fields el")
    case True
    with fieldLoop_first [OF Cons.prems(1) 1] have "smallest st1 = Some el" by simp
    from candidateLoop_found [OF this 2] True show ?thesis by auto
  next
    case False
    with fieldLoop_first [OF Cons.prems(1) 1] have "st1 = st" by simp
    with Cons.IH [OF Cons.prems(1)] 2 False show ?thesis by auto
  qed
qed

lemma fieldLoop_total:
  assumes "\<forall>f \<in> set fields. element f \<noteq> None" and "\<forall>f \<in> set fields. el f \<noteq> None"
    and "\<forall>sm. smallest st = Some sm \<longrightarrow> (\<forall>f \<in> set fields. sm f \<noteq> None)"
  shows "\<exists>st'. fieldLoop element el fields st = Inr st'"
  using assms
proof (induction fields)
  case Nil
  then show ?case by simp
next
  case (Cons field rest)
  then obtain a b where a: "element field = Some a" and b: "el field = Some b"
    by auto
  from Cons obtain st1 where "fieldLoop element el rest st = Inr st1"
    by auto
  with a b Cons.prems(3) show ?case
    by (auto simp: leven_Some strLength_def currLevenOf_def split: option.splits)
qed


lemma candidateLoop_total:
  assumes "hasFields fields element" and "\<forall>el \<in> set list. hasFields fields el"
    and "\<forall>sm. smallest st = Some sm \<longrightarrow> hasFields fields sm"
  shows "\<exists>st'. candidateLoop element fields list st = Inr st'"
  using assms
proof (induction list arbitrary: st)
  case Nil
  then show ?case by simp
next
  case (Cons el rest)
  from Cons.prems have "\<exists>st1. fieldLoop element el fields st = Inr st1"
    by (intro fieldLoop_total) (auto simp: hasFields_def list_all_iff)
  then obtain st1 where 1: "fieldLoop element el fields st = Inr st1" ..
  have "\<forall>sm. smallest st1 = Some sm \<longrightarrow> hasFields fields sm"
  proof (cases "smallest st")
    case None
    from fieldLoop_first [OF None 1] None Cons.prems show ?thesis
      by (auto split: if_splits)
  next
    case (Some sm)
    from fieldLoop_keeps_or_takes [OF Some 1] Some Cons.prems show ?thesis
      by auto
  qed
  with Cons.IH [of st1] Cons.prems obtain st' where "candidateLoop element fields rest st1 = Inr st'"
    by auto
  with 1 show ?case by simp
qed

lemma findSmallestSimilar_total:
  assumes "hasFields fields element" and "\<forall>el \<in> set list. hasFields fields el"
  shows "\<exists>r. findSmallestSimilar element fields list = Inr r"
proof -
  from candidateLoop_total [OF assms, of "Search None Map.empty"]
  obtain st' where "candidateLoop element fields list (Search None Map.empty) = Inr st'"
    by auto
  then show ?thesis by (simp add: findSmallestSimilar_def)
qed

lemma originLoop_total:
  assumes "\<forall>el \<in> set list. hasFields fields el" and "\<forall>el \<in> set destBib. hasFields fields el"
  shows "\<exists>st'. originLoop fields destBib list st = Inr st'"
  using assms
proof (induction list arbitrary: st)
  case Nil
  then show ?case by simp
next
  case (Cons el rest)
  from Cons.prems findSmallestSimilar_total [of fields el destBib]
  obtain r where "findSmallestSimilar el fields destBib = Inr r" by auto
  with Cons show ?case by (cases r) auto
qed

lemma destinyLoop_total:
  assumes "\<forall>el \<in> set list. hasFields fields el" and "\<forall>el \<in> set origBib. hasFields fields el"
  shows "\<exists>st'. destinyLoop fields origBib list st = Inr st'"
  using assms
proof (induction list arbitrary: st)
  case Nil
  then show ?case by simp
next
  case (Cons el rest)
  from Cons.prems findSmallestSimilar_total [of fields el origBib]
  obtain r where "findSmallestSimilar el fields origBib = Inr r" by auto
  with Cons show ?case by (cases r) auto
qed

lemma bruteforceStrategy_total:
  assumes "\<forall>el \<in> set origBib. hasFields fields el" and "\<forall>el \<in> set destBib. hasFields fields el"
  shows "\<exists>st. bruteforceStrategy fields origBib destBib = Inr st"
proof -
  from originLoop_total [OF assms] obtain st0
    where 1: "originLoop fields destBib origBib (Status [] [] []) = Inr st0" by blast
  from destinyLoop_total [OF assms(2,1)] obtain st
    where "destinyLoop fields origBib destBib st0 = Inr st" by blast
  with 1 show ?thesis by (simp add: bruteforceStrategy_def)
qed

lemma missing_first_field:
  assumes "element field = None \<or> el field = None"
  shows "findSmallestSimilar element (field # fields) (el # list) = Inl TypeError"
  using assms
  by (cases "element field"; cases "el field")
     (auto simp: findSmallestSimilar_def leven_def strLength_def)

text \<open>
  The search agrees with the spec's rule: the recorded distance it reads, or the distance
  it computes afresh, is the distance of the best so far.
\<close>

lemma currLevenOf_exact:
  assumes "coherent element st" and "smallest st = Some sm" and "element field = Some a"
    and "currLevenOf st element sm field = Inr currLeven"
  shows "\<exists>c. sm field = Some c \<and> currLeven = levenshtein a c"
proof (cases "computedLeven st field")
  case None
  with assms(4) have l: "leven (Some a) (sm field) = Inr currLeven"
    by (simp add: currLevenOf_def assms(3))
  then obtain c where "sm field = Some c"
    by (cases "sm field") (auto simp: leven_def)
  with l show ?thesis by (simp add: leven_Some)
next
  case (Some n)
  with assms(1,2) obtain a' c where ac: "element field = Some a'" "sm field = Some c" "n = levenshtein a' c"
    unfolding coherent_def by blast
  with assms(3) have "a' = a" by simp
  with ac Some assms(3,4) show ?thesis
    by (auto simp: currLevenOf_def leven_Some split: if_splits)
qed

lemma coherent_adopt: "el field = Some b \<Longrightarrow> element field = Some a \<Longrightarrow>
    coherent element (Search (Some el) [field \<mapsto> levenshtein a b])"
  by (auto simp: coherent_def split: if_splits)

lemma fieldLoop_takesOver:
  assumes "coherent element st" and "fieldLoop element el fields st = Inr st'"
  shows "coherent element st'
       \<and> smallest st' = (if takesOver element fields (smallest st) el then Some el else smallest st)"
  using assms
proof (induction fields)
  case Nil
  then show ?case by simp
next
  case (Cons field rest)
  from Cons.prems(2) obtain a b where a: "element field = Some a" and b: "el field = Some b"
    by (auto simp: strLength_def split: sum.splits option.splits)
  let ?n = "levenshtein a b"
  let ?rej = "SIMILARITY_RATE < similarityOf ?n (max (orOne (length a)) (orOne (length b)))"
  show ?case
  proof (cases ?rej)
    case True
    with Cons.prems a b show ?thesis
      by (simp add: leven_Some strLength_def)
  next
    case False
    show ?thesis
    proof (cases "smallest st")
      case None
      with False Cons.prems a b show ?thesis
        by (auto simp: leven_Some strLength_def coherent_adopt)
    next
      case (Some sm)
      with False Cons.prems(2) a b obtain currLeven where
        cur: "currLevenOf st element sm field = Inr currLeven"
        by (auto simp: leven_Some strLength_def split: sum.splits)
      from currLevenOf_exact [OF Cons.prems(1) Some a cur]
      obtain c where c: "sm field = Some c" and ce: "currLeven = levenshtein a c" by blast
      consider (worse) "levenshtein a c < ?n" | (better) "?n < levenshtein a c"
        | (same) "?n = levenshtein a c" by linarith
      then show ?thesis
      proof cases
        case worse
        with False Some Cons.prems a b c cur ce show ?thesis
          by (simp add: leven_Some strLength_def)
      next
        case better
        with False Some Cons.prems a b c cur ce show ?thesis
          by (auto simp: leven_Some strLength_def coherent_adopt)
      next
        case same
        with False Some Cons.prems(2) a b c cur ce
        have "fieldLoop element el rest st = Inr st'"
          by (simp add: leven_Some strLength_def)
        from Cons.IH [OF Cons.prems(1) this] False Some a b c same show ?thesis
          by simp
      qed
    qed
  qed
qed

lemma candidateLoop_fold:
  assumes "coherent element st" and "candidateLoop element fields list st = Inr st'"
  shows "smallest st'
       = foldl (\<lambda>best el. if takesOver element fields best el then Some el else best)
           (smallest st) list"
  using assms
proof (induction list arbitrary: st)
  case Nil
  then show ?case by simp
next
  case (Cons el rest)
  from Cons.prems(2) obtain st1 where 1: "fieldLoop element el fields st = Inr st1"
    and 2: "candidateLoop element fields rest st1 = Inr st'"
    by (auto split: sum.splits)
  from fieldLoop_takesOver [OF Cons.prems(1) 1] Cons.IH [OF _ 2] show ?case
    by simp
qed

lemma findSmallestSimilar_bestSoFar:
  assumes "findSmallestSimilar element fields list = Inr r"
  shows "r = bestSoFar element fields list"
proof -
  from assms obtain st' where
    1: "candidateLoop element fields list (Search None Map.empty) = Inr st'" and r: "r = smallest st'"
    by (auto simp: findSmallestSimilar_def split: sum.splits)
  have "coherent element (Search None Map.empty)"
    by (simp add: coherent_def)
  from candidateLoop_fold [OF this 1] r show ?thesis
    by (simp add: bestSoFar_def)
qed

lemma takesOver_single:
  "takesOver element [field] best el =
     (passesFirst element [field] el
      \<and> (case best of None \<Rightarrow> True
          | Some sm \<Rightarrow> sm field \<noteq> None \<and> fieldDistance element field el < fieldDistance element field sm))"
  by (auto simp: passesFirst_def fieldDistance_def split: option.splits)

lemma bestSoFar_single_least:
  "(bestSoFar element [field] list = None
      \<longleftrightarrow> (\<forall>el \<in> set list. \<not> passesFirst element [field] el))
   \<and> (\<forall>c. bestSoFar element [field] list = Some c \<longrightarrow>
         c \<in> set list \<and> passesFirst element [field] c
         \<and> (\<forall>el \<in> set list. passesFirst element [field] el
               \<longrightarrow> fieldDistance element field c \<le> fieldDistance element field el))"
proof (induction list rule: rev_induct)
  case Nil
  then show ?case by (simp add: bestSoFar_def)
next
  case (snoc el list)
  let ?best = "bestSoFar element [field] list"
  let ?d = "fieldDistance element field"
  let ?p = "passesFirst element [field]"
  have step: "bestSoFar element [field] (list @ [el])
      = (if takesOver element [field] ?best el then Some el else ?best)"
    by (simp add: bestSoFar_def del: takesOver.simps)
  show ?case
  proof (cases ?best)
    case None
    with snoc have no: "\<forall>x \<in> set list. \<not> ?p x" by simp
    have t: "takesOver element [field] ?best el = ?p el"
      by (simp only: takesOver_single None option.case simp_thms)
    show ?thesis
    proof (cases "?p el")
      case True
      with t step have "bestSoFar element [field] (list @ [el]) = Some el" by simp
      with True no show ?thesis by auto
    next
      case False
      with t step None have "bestSoFar element [field] (list @ [el]) = None" by simp
      with False no show ?thesis by auto
    qed
  next
    case (Some sm)
    with snoc have sm: "sm \<in> set list" "?p sm"
      and least: "\<forall>x \<in> set list. ?p x \<longrightarrow> ?d sm \<le> ?d x"
      by simp_all
    from sm(2) have "sm field \<noteq> None"
      by (auto simp: passesFirst_def split: option.splits)
    then have t: "takesOver element [field] ?best el = (?p el \<and> ?d el < ?d sm)"
      by (simp only: takesOver_single Some option.case simp_thms)
    show ?thesis
    proof (cases "?p el \<and> ?d el < ?d sm")
      case True
      with t step have r: "bestSoFar element [field] (list @ [el]) = Some el" by simp
      from True least have "\<forall>x \<in> set list. ?p x \<longrightarrow> ?d el \<le> ?d x"
        by (meson le_trans less_imp_le)
      with r True show ?thesis by auto
    next
      case False
      with t step Some have r: "bestSoFar element [field] (list @ [el]) = Some sm" by simp
      from False have "?p el \<longrightarrow> ?d sm \<le> ?d el" by auto
      with r sm least show ?thesis by auto
    qed
  qed
qed

section \<open>The threshold\<close>

text \<open>
  C1, as amended. The only compared field of the record has the value \<open>a\<close>, that of the
  only candidate the value \<open>b\<close>, both of at most \<open>2 ^ 32\<close> code units. The candidate is
  rejected exactly when the normalized edit distance of \<open>a\<close> and \<open>b\<close> is greater than
  \<open>3 / 10\<close>. At the distance \<open>3 / 10\<close> itself the candidate is returned: the threshold
  belongs to the accepted side.
\<close>

theorem threshold_accepts_boundary:
  assumes "element field = Some a" and "el field = Some b"
    and "length a \<le> 2 ^ 32" and "length b \<le> 2 ^ 32"
  shows "findSmallestSimilar element [field] [el] =
           Inr (if 3 / 10 < normalizedDistance a b then None else Some el)"
  unfolding normalizedDistance_exceeds using assms by (rule single_candidate)

text \<open>
  The theorem at the two titles of the spec's scenario, whose distance is \<open>4 / 15\<close>: the
  candidate is returned.
\<close>

theorem threshold_accepts_boundary_witness:
  "[''TITLE'' \<mapsto> ''Neural Nets''] ''TITLE'' = Some ''Neural Nets''
   \<and> [''key'' \<mapsto> ''a2'', ''TITLE'' \<mapsto> ''Neural Networks''] ''TITLE'' = Some ''Neural Networks''
   \<and> length ''Neural Nets'' \<le> 2 ^ 32 \<and> length ''Neural Networks'' \<le> 2 ^ 32
   \<and> normalizedDistance ''Neural Nets'' ''Neural Networks'' = 4 / 15
   \<and> findSmallestSimilar [''TITLE'' \<mapsto> ''Neural Nets''] [''TITLE'']
         [[''key'' \<mapsto> ''a2'', ''TITLE'' \<mapsto> ''Neural Networks'']]
       = Inr (Some [''key'' \<mapsto> ''a2'', ''TITLE'' \<mapsto> ''Neural Networks''])"
  using threshold_accepts_boundary [of "[''TITLE'' \<mapsto> ''Neural Nets'']" "''TITLE''" "''Neural Nets''"
      "[''key'' \<mapsto> ''a2'', ''TITLE'' \<mapsto> ''Neural Networks'']" "''Neural Networks''"]
  by (simp add: normalizedDistance_def orOne_def)

text \<open>
  C1 as the spec states it fails: two titles of ten code units that differ in three
  places have the normalized distance \<open>3 / 10\<close> exactly, the search returns the
  candidate, and the strategy puts the record into \<open>AB\<close>.
\<close>

theorem threshold_boundary_counterexample:
  "normalizedDistance ''abcdefghij'' ''abcdefgxyz'' = 3 / 10
   \<and> findSmallestSimilar [''TITLE'' \<mapsto> ''abcdefghij''] [''TITLE''] [[''TITLE'' \<mapsto> ''abcdefgxyz'']]
       = Inr (Some [''TITLE'' \<mapsto> ''abcdefgxyz''])
   \<and> bruteforceStrategy [''TITLE''] [[''TITLE'' \<mapsto> ''abcdefghij'']] [[''TITLE'' \<mapsto> ''abcdefgxyz'']]
       = Inr (Status [[''TITLE'' \<mapsto> ''abcdefghij'']] [] [])"
proof -
  let ?a = "''abcdefghij''" and ?b = "''abcdefgxyz''"
  let ?A = "[''TITLE'' \<mapsto> ?a]" and ?B = "[''TITLE'' \<mapsto> ?b]"
  have 1: "findSmallestSimilar ?A [''TITLE''] [?B] = Inr (Some ?B)"
    using single_candidate [of ?A "''TITLE''" ?a ?B ?b] by (simp add: orOne_def)
  have 2: "findSmallestSimilar ?B [''TITLE''] [?A] = Inr (Some ?A)"
    using single_candidate [of ?B "''TITLE''" ?b ?A ?a] by (simp add: orOne_def)
  have 3: "normalizedDistance ?a ?b = 3 / 10"
    by (simp add: normalizedDistance_def orOne_def)
  show ?thesis
    using 1 2 3 by (simp add: bruteforceStrategy_def)
qed

section \<open>Missing fields\<close>

text \<open>
  C2: a record or a candidate that lacks the compared field makes the search and the
  strategy raise a \<open>TypeError\<close>; the missing value is not taken as the empty string.
\<close>

theorem missing_field_raises:
  "findSmallestSimilar [''key'' \<mapsto> ''a1''] [''TITLE'']
     [[''key'' \<mapsto> ''a2'', ''TITLE'' \<mapsto> ''Deep Learning'']] = Inl TypeError
   \<and> findSmallestSimilar [''key'' \<mapsto> ''a2'', ''TITLE'' \<mapsto> ''Deep Learning''] [''TITLE'']
     [[''key'' \<mapsto> ''a1'']] = Inl TypeError
   \<and> bruteforceStrategy [''TITLE''] [[''key'' \<mapsto> ''a1'']]
     [[''key'' \<mapsto> ''a2'', ''TITLE'' \<mapsto> ''Deep Learning'']] = Inl TypeError"
  by (simp add: findSmallestSimilar_def bruteforceStrategy_def leven_def strLength_def)

section \<open>What the search returns\<close>

text \<open>
  C7: when the search returns, it returns the best-so-far candidate, the one the spec's
  rule leaves after the last candidate of the list; it returns nothing exactly when no
  candidate of the list passes the threshold check on the first compared field; a
  candidate it returns is an element of the list; and with one compared field the
  returned candidate passes the threshold check and no candidate that passes it has a
  smaller edit distance.
\<close>

theorem findSmallestSimilar_best_so_far:
  assumes "findSmallestSimilar element fields list = Inr r"
  shows "r = bestSoFar element fields list
       \<and> (r = None \<longleftrightarrow> (\<forall>el \<in> set list. \<not> passesFirst element fields el))
       \<and> (\<forall>c. r = Some c \<longrightarrow> c \<in> set list)
       \<and> (\<forall>field c. fields = [field] \<longrightarrow> r = Some c \<longrightarrow>
             passesFirst element fields c
             \<and> (\<forall>el \<in> set list. passesFirst element fields el
                   \<longrightarrow> fieldDistance element field c \<le> fieldDistance element field el))"
proof -
  from assms obtain st' where
    1: "candidateLoop element fields list (Search None Map.empty) = Inr st'" and r: "r = smallest st'"
    by (auto simp: findSmallestSimilar_def split: sum.splits)
  have "smallest (Search None Map.empty) = None" by simp
  from candidateLoop_none [OF this 1] r
  have a: "(r = None \<longleftrightarrow> (\<forall>el \<in> set list. \<not> passesFirst element fields el))
       \<and> (\<forall>c. r = Some c \<longrightarrow> c \<in> set list)"
    by simp
  have b: "r = bestSoFar element fields list"
    using assms by (rule findSmallestSimilar_bestSoFar)
  have c: "passesFirst element fields c
             \<and> (\<forall>el \<in> set list. passesFirst element fields el
                   \<longrightarrow> fieldDistance element field c \<le> fieldDistance element field el)"
    if "fields = [field]" "r = Some c" for field c
    using bestSoFar_single_least [of element field list] that b by simp
  from a b c show ?thesis by blast
qed

text \<open>
  The theorem at a search with two candidates that both pass the threshold check: the
  second one is nearer, takes over from the first and is returned.
\<close>

theorem findSmallestSimilar_best_so_far_witness:
  "findSmallestSimilar [''TITLE'' \<mapsto> ''abcdefghij''] [''TITLE'']
       [[''key'' \<mapsto> ''b1'', ''TITLE'' \<mapsto> ''abcdefghix''],
        [''key'' \<mapsto> ''b2'', ''TITLE'' \<mapsto> ''abcdefghij'']]
     = Inr (Some [''key'' \<mapsto> ''b2'', ''TITLE'' \<mapsto> ''abcdefghij''])
   \<and> bestSoFar [''TITLE'' \<mapsto> ''abcdefghij''] [''TITLE'']
       [[''key'' \<mapsto> ''b1'', ''TITLE'' \<mapsto> ''abcdefghix''],
        [''key'' \<mapsto> ''b2'', ''TITLE'' \<mapsto> ''abcdefghij'']]
     = Some [''key'' \<mapsto> ''b2'', ''TITLE'' \<mapsto> ''abcdefghij'']
   \<and> fieldDistance [''TITLE'' \<mapsto> ''abcdefghij''] ''TITLE''
         [''key'' \<mapsto> ''b2'', ''TITLE'' \<mapsto> ''abcdefghij''] = 0
   \<and> fieldDistance [''TITLE'' \<mapsto> ''abcdefghij''] ''TITLE''
         [''key'' \<mapsto> ''b1'', ''TITLE'' \<mapsto> ''abcdefghix''] = 1"
proof -
  let ?E = "[''TITLE'' \<mapsto> ''abcdefghij'']"
  let ?b1 = "[''key'' \<mapsto> ''b1'', ''TITLE'' \<mapsto> ''abcdefghix'']"
  let ?b2 = "[''key'' \<mapsto> ''b2'', ''TITLE'' \<mapsto> ''abcdefghij'']"
  have "hasFields [''TITLE''] ?E" and "\<forall>el \<in> set [?b1, ?b2]. hasFields [''TITLE''] el"
    by (simp_all add: hasFields_def)
  from findSmallestSimilar_total [OF this]
  obtain r where r: "findSmallestSimilar ?E [''TITLE''] [?b1, ?b2] = Inr r" ..
  have best: "bestSoFar ?E [''TITLE''] [?b1, ?b2] = Some ?b2"
    using rejects_iff [of "''abcdefghij''" "''abcdefghix''"]
      rejects_iff [of "''abcdefghij''" "''abcdefghij''"]
    by (simp add: bestSoFar_def orOne_def)
  from findSmallestSimilar_best_so_far [OF r] have "r = bestSoFar ?E [''TITLE''] [?b1, ?b2]"
    by blast
  with r best show ?thesis
    by (simp add: fieldDistance_def)
qed

section \<open>The two passes of the approximate strategy\<close>

lemma originLoop_buckets:
  assumes "originLoop fields destBib list st = Inr st'"
  shows "AB st' = AB st @ filter (\<lambda>el. findSmallestSimilar el fields destBib \<noteq> Inr None) list
       \<and> OnlyA st' = OnlyA st @ filter (\<lambda>el. findSmallestSimilar el fields destBib = Inr None) list
       \<and> OnlyB st' = OnlyB st"
  using assms
proof (induction list arbitrary: st)
  case Nil
  then show ?case by simp
next
  case (Cons el rest)
  from Cons.prems obtain similar where s: "findSmallestSimilar el fields destBib = Inr similar"
    by (auto split: sum.splits)
  show ?case
  proof (cases similar)
    case None
    with s Cons.prems
    have "originLoop fields destBib rest (Status (AB st) (OnlyA st @ [el]) (OnlyB st)) = Inr st'"
      by simp
    from Cons.IH [OF this] s None show ?thesis by simp
  next
    case (Some c)
    with s Cons.prems
    have "originLoop fields destBib rest (Status (AB st @ [el]) (OnlyA st) (OnlyB st)) = Inr st'"
      by simp
    from Cons.IH [OF this] s Some show ?thesis by simp
  qed
qed

lemma destinyLoop_buckets:
  assumes "destinyLoop fields origBib list st = Inr st'"
  shows "AB st' = AB st \<and> OnlyA st' = OnlyA st
       \<and> OnlyB st' = OnlyB st @ filter (\<lambda>el. findSmallestSimilar el fields origBib = Inr None) list"
  using assms
proof (induction list arbitrary: st)
  case Nil
  then show ?case by simp
next
  case (Cons el rest)
  from Cons.prems obtain similar where s: "findSmallestSimilar el fields origBib = Inr similar"
    by (auto split: sum.splits)
  show ?case
  proof (cases similar)
    case None
    with s Cons.prems
    have "destinyLoop fields origBib rest (Status (AB st) (OnlyA st) (OnlyB st @ [el])) = Inr st'"
      by simp
    from Cons.IH [OF this] s None show ?thesis by simp
  next
    case (Some c)
    with s Cons.prems have "destinyLoop fields origBib rest st = Inr st'"
      by simp
    from Cons.IH [OF this] s Some show ?thesis by simp
  qed
qed

text \<open>
  C4: when the approximate strategy returns, \<open>AB\<close> and \<open>OnlyA\<close> are what the pass over
  \<open>origBib\<close> left, the pass over \<open>destBib\<close> adds to \<open>OnlyB\<close> alone, and it adds exactly
  the entries of \<open>destBib\<close> whose search in \<open>origBib\<close> returns nothing: an entry of
  \<open>destBib\<close> that finds a match is added to no bucket.
\<close>

theorem bruteforce_common_from_origin_only:
  assumes "bruteforceStrategy fields origBib destBib = Inr st"
  shows "(\<exists>st0. originLoop fields destBib origBib (Status [] [] []) = Inr st0
            \<and> destinyLoop fields origBib destBib st0 = Inr st
            \<and> AB st = AB st0 \<and> OnlyA st = OnlyA st0)
       \<and> AB st = filter (\<lambda>el. findSmallestSimilar el fields destBib \<noteq> Inr None) origBib
       \<and> OnlyA st = filter (\<lambda>el. findSmallestSimilar el fields destBib = Inr None) origBib
       \<and> OnlyB st = filter (\<lambda>el. findSmallestSimilar el fields origBib = Inr None) destBib
       \<and> (\<forall>el \<in> set destBib. findSmallestSimilar el fields origBib \<noteq> Inr None \<longrightarrow> el \<notin> set (OnlyB st))"
proof -
  from assms obtain st0 where
    1: "originLoop fields destBib origBib (Status [] [] []) = Inr st0" and
    2: "destinyLoop fields origBib destBib st0 = Inr st"
    by (auto simp: bruteforceStrategy_def split: sum.splits)
  from originLoop_buckets [OF 1] destinyLoop_buckets [OF 2] 1 2
  show ?thesis by auto
qed

text \<open>
  The theorem at the scenario of the spec: the origin entry goes to \<open>AB\<close>, the destiny
  entry finds it and goes nowhere.
\<close>

theorem bruteforce_common_from_origin_only_witness:
  "bruteforceStrategy [''TITLE''] [[''key'' \<mapsto> ''a1'', ''TITLE'' \<mapsto> ''Neural Nets'']]
       [[''key'' \<mapsto> ''a2'', ''TITLE'' \<mapsto> ''Neural Networks'']]
     = Inr (Status [[''key'' \<mapsto> ''a1'', ''TITLE'' \<mapsto> ''Neural Nets'']] [] [])
   \<and> findSmallestSimilar [''key'' \<mapsto> ''a2'', ''TITLE'' \<mapsto> ''Neural Networks''] [''TITLE'']
       [[''key'' \<mapsto> ''a1'', ''TITLE'' \<mapsto> ''Neural Nets'']]
     = Inr (Some [''key'' \<mapsto> ''a1'', ''TITLE'' \<mapsto> ''Neural Nets''])
   \<and> [''key'' \<mapsto> ''a2'', ''TITLE'' \<mapsto> ''Neural Networks'']
     \<notin> set (OnlyB (Status [[''key'' \<mapsto> ''a1'', ''TITLE'' \<mapsto> ''Neural Nets'']] [] []))"
proof -
  let ?A = "[''key'' \<mapsto> ''a1'', ''TITLE'' \<mapsto> ''Neural Nets'']"
  let ?B = "[''key'' \<mapsto> ''a2'', ''TITLE'' \<mapsto> ''Neural Networks'']"
  have 1: "findSmallestSimilar ?A [''TITLE''] [?B] = Inr (Some ?B)"
    using single_candidate [of ?A "''TITLE''" "''Neural Nets''" ?B "''Neural Networks''"]
    by (simp add: orOne_def)
  have 2: "findSmallestSimilar ?B [''TITLE''] [?A] = Inr (Some ?A)"
    using single_candidate [of ?B "''TITLE''" "''Neural Networks''" ?A "''Neural Nets''"]
    by (simp add: orOne_def)
  have 3: "bruteforceStrategy [''TITLE''] [?A] [?B] = Inr (Status [?A] [] [])"
    using 1 2 by (simp add: bruteforceStrategy_def)
  from bruteforce_common_from_origin_only [OF 3] 2
  have "?B \<notin> set (OnlyB (Status [?A] [] []))"
    by simp
  with 2 3 show ?thesis by simp
qed

section \<open>Facts about the lookup table\<close>

lemma map_of_tableSet: "map_of (tableSet t key el) = (map_of t)(key \<mapsto> el)"
  by (induction t) (auto simp: fun_eq_iff)

lemma keys_tableSet:
  "map fst (tableSet t key el) = (if key \<in> fst ` set t then map fst t else map fst t @ [key])"
  by (induction t) force+

lemma distinct_tableSet: "distinct (map fst t) \<Longrightarrow> distinct (map fst (tableSet t key el))"
  by (simp add: keys_tableSet)

lemma set_tableSet: "(k, v) \<in> set (tableSet t key el) \<Longrightarrow> (k, v) \<in> set t \<or> (k = key \<and> v = el)"
  by (induction t) (auto split: if_splits)

lemma buildLoop_keys:
  "fst ` set (buildLoop fields list t) = fst ` set t \<union> (\<lambda>el. getKey el fields) ` set list"
proof (induction list arbitrary: t)
  case Nil
  then show ?case by simp
next
  case (Cons el rest)
  have "fst ` set (tableSet t (getKey el fields) el) = insert (getKey el fields) (fst ` set t)"
    using keys_tableSet [of t "getKey el fields" el]
    by (metis (no_types, lifting) Un_insert_right insert_absorb list.set(1,2) list.set_map set_append sup_bot.right_neutral)
  with Cons show ?case by simp
qed

lemma buildLoop_distinct:
  "distinct (map fst t) \<Longrightarrow> distinct (map fst (buildLoop fields list t))"
  by (induction list arbitrary: t) (simp_all add: distinct_tableSet)

lemma buildLoop_lookup:
  "map_of (buildLoop fields list t) key =
     (case lastWithKey fields list key of Some e \<Rightarrow> Some e | None \<Rightarrow> map_of t key)"
  by (induction list arbitrary: t) (auto simp: map_of_tableSet split: option.splits)

lemma buildLoop_pairs:
  "(k, v) \<in> set (buildLoop fields list t) \<Longrightarrow>
     (k, v) \<in> set t \<or> (v \<in> set list \<and> getKey v fields = k)"
proof (induction list arbitrary: t)
  case Nil
  then show ?case by simp
next
  case (Cons el rest)
  from Cons.prems have "(k, v) \<in> set (buildLoop fields rest (tableSet t (getKey el fields) el))"
    by simp
  from Cons.IH [OF this] show ?case
    by (auto dest: set_tableSet)
qed

lemma lastWithKey_Some:
  "lastWithKey fields list key = Some e \<Longrightarrow> e \<in> set list \<and> getKey e fields = key"
  by (induction list) (auto split: option.splits if_splits)

lemma lastWithKey_None:
  "(lastWithKey fields list key = None) = (key \<notin> (\<lambda>el. getKey el fields) ` set list)"
  by (induction list) (auto split: option.splits if_splits)

lemma table_keys: "fst ` set (buildLookupTable list fields) = (\<lambda>el. getKey el fields) ` set list"
  by (simp add: buildLookupTable_def buildLoop_keys)

lemma table_distinct: "distinct (map fst (buildLookupTable list fields))"
  by (simp add: buildLookupTable_def buildLoop_distinct)

lemma table_lookup: "tableGet (buildLookupTable list fields) key = lastWithKey fields list key"
  by (simp add: tableGet_def buildLookupTable_def buildLoop_lookup split: option.splits)

lemma table_pairs:
  "(k, v) \<in> set (buildLookupTable list fields) \<Longrightarrow> v \<in> set list \<and> getKey v fields = k"
  using buildLoop_pairs [of k v fields list "[]"] by (simp add: buildLookupTable_def)

text \<open>The value paired with a key is what the table returns for that key.\<close>

lemma table_pair_lookup:
  "(k, v) \<in> set (buildLookupTable list fields) \<Longrightarrow> tableGet (buildLookupTable list fields) k = Some v"
  by (simp add: tableGet_def table_distinct)

lemma table_values:
  "snd ` set (buildLookupTable list fields)
     = {el \<in> set list. lastWithKey fields list (getKey el fields) = Some el}"
proof (intro set_eqI iffI)
  fix v assume "v \<in> snd ` set (buildLookupTable list fields)"
  then obtain k where kv: "(k, v) \<in> set (buildLookupTable list fields)" by auto
  from table_pairs [OF kv] table_pair_lookup [OF kv]
  show "v \<in> {el \<in> set list. lastWithKey fields list (getKey el fields) = Some el}"
    by (simp add: table_lookup)
next
  fix v assume "v \<in> {el \<in> set list. lastWithKey fields list (getKey el fields) = Some el}"
  then have "tableGet (buildLookupTable list fields) (getKey v fields) = Some v"
    by (simp add: table_lookup)
  then have "(getKey v fields, v) \<in> set (buildLookupTable list fields)"
    by (simp add: tableGet_def map_of_SomeD)
  then show "v \<in> snd ` set (buildLookupTable list fields)"
    by force
qed

lemma table_values_distinct: "distinct (map snd (buildLookupTable list fields))"
proof -
  have "map fst (buildLookupTable list fields)
      = map (\<lambda>el. getKey el fields) (map snd (buildLookupTable list fields))"
    using table_pairs [of _ _ list fields] by (auto simp: in_set_conv_nth) 
  with table_distinct [of list fields] show ?thesis
    by (metis distinct_map)
qed

lemma table_length:
  "length (buildLookupTable list fields) = card ((\<lambda>el. getKey el fields) ` set list)"
proof -
  have "length (buildLookupTable list fields) = length (map fst (buildLookupTable list fields))"
    by simp
  also have "\<dots> = card (set (map fst (buildLookupTable list fields)))"
    using table_distinct by (simp only: distinct_card)
  finally show ?thesis by (simp add: table_keys)
qed

lemma originKeys_buckets:
  "originKeys listB ps st =
     Status (AB st @ map snd (filter (\<lambda>p. tableGet listB (fst p) \<noteq> None) ps))
            (OnlyA st @ map snd (filter (\<lambda>p. tableGet listB (fst p) = None) ps))
            (OnlyB st)"
  by (induction listB ps st rule: originKeys.induct) auto

lemma destinyKeys_buckets:
  "destinyKeys listA ps st =
     Status (AB st) (OnlyA st)
            (OnlyB st @ map snd (filter (\<lambda>p. tableGet listA (fst p) = None) ps))"
  by (induction listA ps st rule: destinyKeys.induct) auto

lemma hashStrategy_buckets:
  "hashStrategy fields origBib destBib =
     Status (map snd (filter (\<lambda>p. tableGet (buildLookupTable destBib fields) (fst p) \<noteq> None)
                        (buildLookupTable origBib fields)))
            (map snd (filter (\<lambda>p. tableGet (buildLookupTable destBib fields) (fst p) = None)
                        (buildLookupTable origBib fields)))
            (map snd (filter (\<lambda>p. tableGet (buildLookupTable origBib fields) (fst p) = None)
                        (buildLookupTable destBib fields)))"
  by (simp add: hashStrategy_def Let_def originKeys_buckets destinyKeys_buckets)

lemma table_has_key:
  "(tableGet (buildLookupTable list fields) key \<noteq> None)
     = (key \<in> fst ` set (buildLookupTable list fields))"
  by (simp add: tableGet_def map_of_eq_None_iff)

lemma common_count:
  "length (filter (\<lambda>p. tableGet (buildLookupTable ys fields) (fst p) \<noteq> None) (buildLookupTable xs fields))
     = card (fst ` set (buildLookupTable xs fields) \<inter> fst ` set (buildLookupTable ys fields))"
proof -
  let ?tx = "buildLookupTable xs fields" and ?ty = "buildLookupTable ys fields"
  have "filter (\<lambda>p. tableGet ?ty (fst p) \<noteq> None) ?tx
      = filter (\<lambda>p. fst p \<in> fst ` set ?ty) ?tx"
    by (simp only: table_has_key)
  then have "length (filter (\<lambda>p. tableGet ?ty (fst p) \<noteq> None) ?tx)
      = length (filter (\<lambda>k. k \<in> fst ` set ?ty) (map fst ?tx))"
    by (simp add: filter_map comp_def)
  also have "\<dots> = card ({k. k \<in> fst ` set ?ty} \<inter> set (map fst ?tx))"
    using table_distinct by (rule distinct_length_filter)
  also have "\<dots> = card (fst ` set ?tx \<inter> fst ` set ?ty)"
    by (simp add: Int_commute)
  finally show ?thesis .
qed

lemma distinct_split:
  "distinct (map f xs) \<Longrightarrow> distinct (map f (filter P xs) @ map f (filter (\<lambda>x. \<not> P x) xs))"
  by (induction xs) auto

lemma set_split:
  "set (map f (filter P xs)) \<union> set (map f (filter (\<lambda>x. \<not> P x) xs)) = f ` set xs"
  by (induction xs) auto

lemma tableSet_fresh: "key \<notin> fst ` set t \<Longrightarrow> tableSet t key el = t @ [(key, el)]"
  by (induction t) auto

lemma buildLoop_fresh:
  assumes "distinct (map (\<lambda>el. getKey el fields) list)"
    and "(\<lambda>el. getKey el fields) ` set list \<inter> fst ` set t = {}"
  shows "buildLoop fields list t = t @ map (\<lambda>el. (getKey el fields, el)) list"
  using assms
proof (induction list arbitrary: t)
  case Nil
  then show ?case by simp
next
  case (Cons el rest)
  from Cons.prems have fresh: "getKey el fields \<notin> fst ` set t" by auto
  have "buildLoop fields rest (t @ [(getKey el fields, el)])
      = (t @ [(getKey el fields, el)]) @ map (\<lambda>el. (getKey el fields, el)) rest"
    using Cons.prems by (intro Cons.IH) auto
  with fresh show ?case by (simp add: tableSet_fresh)
qed

lemma hashStrategy_empty_origin:
  "hashStrategy fields [] destBib = Status [] [] (map snd (buildLookupTable destBib fields))"
  by (simp add: hashStrategy_buckets) (simp add: buildLookupTable_def tableGet_def)

lemma search_in_nothing: "findSmallestSimilar el fields [] = Inr None"
  by (simp add: findSmallestSimilar_def)

lemma destinyLoop_empty_origin:
  "destinyLoop fields [] list st = Inr (Status (AB st) (OnlyA st) (OnlyB st @ list))"
  by (induction list arbitrary: st) (simp_all add: search_in_nothing)

lemma bruteforce_empty_origin: "bruteforceStrategy fields [] destBib = Inr (Status [] [] destBib)"
  by (simp add: bruteforceStrategy_def destinyLoop_empty_origin)

lemma hashStrategy_singletons:
  "hashStrategy fields [a] [b] =
     (if getKey a fields = getKey b fields then Status [a] [] [] else Status [] [a] [b])"
  by (simp add: hashStrategy_def buildLookupTable_def tableGet_def)

lemma entries_differ: "(m(k \<mapsto> x)) \<noteq> (m'(k \<mapsto> y))" if "x \<noteq> y"
  using that by (metis map_upd_eqD1)

section \<open>The partition of the exact strategy\<close>

text \<open>
  C3, as amended. \<open>AB\<close> and \<open>OnlyA\<close> share no entry and hold no entry twice; together they
  hold exactly the entries of \<open>origBib\<close> that are the last of \<open>origBib\<close> with their
  fingerprint; an entry of \<open>destBib\<close> that is the last of \<open>destBib\<close> with its fingerprint
  and whose fingerprint no entry of \<open>origBib\<close> has is in \<open>OnlyB\<close>; and \<open>AB\<close> and
  \<open>OnlyA\<close> together have as many entries as \<open>origBib\<close> has distinct fingerprints.
\<close>

theorem hash_origin_partition:
  "set (AB (hashStrategy fields origBib destBib)) \<inter> set (OnlyA (hashStrategy fields origBib destBib)) = {}
   \<and> distinct (AB (hashStrategy fields origBib destBib) @ OnlyA (hashStrategy fields origBib destBib))
   \<and> set (AB (hashStrategy fields origBib destBib)) \<union> set (OnlyA (hashStrategy fields origBib destBib))
       = {el \<in> set origBib. lastWithKey fields origBib (getKey el fields) = Some el}
   \<and> (\<forall>el \<in> set destBib.
         getKey el fields \<notin> (\<lambda>a. getKey a fields) ` set origBib
         \<and> lastWithKey fields destBib (getKey el fields) = Some el
         \<longrightarrow> el \<in> set (OnlyB (hashStrategy fields origBib destBib)))
   \<and> length (AB (hashStrategy fields origBib destBib)) + length (OnlyA (hashStrategy fields origBib destBib))
       = card ((\<lambda>a. getKey a fields) ` set origBib)"
proof -
  let ?tA = "buildLookupTable origBib fields" and ?tB = "buildLookupTable destBib fields"
  let ?P = "\<lambda>p. tableGet ?tB (fst p) \<noteq> None"
  let ?st = "hashStrategy fields origBib destBib"
  have ab: "AB ?st = map snd (filter ?P ?tA)"
    and oa: "OnlyA ?st = map snd (filter (\<lambda>p. \<not> ?P p) ?tA)"
    and ob: "OnlyB ?st = map snd (filter (\<lambda>p. tableGet ?tA (fst p) = None) ?tB)"
    by (simp_all add: hashStrategy_buckets)
  have dv: "distinct (map snd ?tA)" by (rule table_values_distinct)
  have d: "distinct (AB ?st @ OnlyA ?st)"
    unfolding ab oa using dv by (rule distinct_split)
  then have 1: "set (AB ?st) \<inter> set (OnlyA ?st) = {}"
    by simp
  have "set (AB ?st) \<union> set (OnlyA ?st) = snd ` set ?tA"
    unfolding ab oa by (rule set_split)
  then have 2: "set (AB ?st) \<union> set (OnlyA ?st)
       = {el \<in> set origBib. lastWithKey fields origBib (getKey el fields) = Some el}"
    by (simp only: table_values)
  have 3: "el \<in> set (OnlyB ?st)"
    if "el \<in> set destBib" "getKey el fields \<notin> (\<lambda>a. getKey a fields) ` set origBib"
      "lastWithKey fields destBib (getKey el fields) = Some el" for el
  proof -
    from that(3) have "(getKey el fields, el) \<in> set ?tB"
      by (metis map_of_SomeD tableGet_def table_lookup)
    moreover from that(2) have "tableGet ?tA (getKey el fields) = None"
      by (simp add: table_lookup lastWithKey_None)
    ultimately show ?thesis
      unfolding ob by force
  qed
  have "length (AB ?st) + length (OnlyA ?st) = length ?tA"
    unfolding ab oa length_map by (rule sum_length_filter_compl)
  then have 4: "length (AB ?st) + length (OnlyA ?st) = card ((\<lambda>a. getKey a fields) ` set origBib)"
    by (simp only: table_length)
  from 1 d 2 3 4 show ?thesis by blast
qed

text \<open>
  The theorem at a destiny collection of two entries with one fingerprint and an empty
  origin: the second entry is in \<open>OnlyB\<close>.
\<close>

theorem hash_origin_partition_witness:
  "[''key'' \<mapsto> ''a1'', ''TITLE'' \<mapsto> ''Deep Learning 2'']
     \<in> set [[''key'' \<mapsto> ''a1'', ''TITLE'' \<mapsto> ''Deep Learning''],
             [''key'' \<mapsto> ''a1'', ''TITLE'' \<mapsto> ''Deep Learning 2'']]
   \<and> lastWithKey [''key'']
         [[''key'' \<mapsto> ''a1'', ''TITLE'' \<mapsto> ''Deep Learning''],
          [''key'' \<mapsto> ''a1'', ''TITLE'' \<mapsto> ''Deep Learning 2'']]
         (getKey [''key'' \<mapsto> ''a1'', ''TITLE'' \<mapsto> ''Deep Learning 2''] [''key''])
       = Some [''key'' \<mapsto> ''a1'', ''TITLE'' \<mapsto> ''Deep Learning 2'']
   \<and> [''key'' \<mapsto> ''a1'', ''TITLE'' \<mapsto> ''Deep Learning 2'']
     \<in> set (OnlyB (hashStrategy [''key''] []
         [[''key'' \<mapsto> ''a1'', ''TITLE'' \<mapsto> ''Deep Learning''],
          [''key'' \<mapsto> ''a1'', ''TITLE'' \<mapsto> ''Deep Learning 2'']]))"
proof -
  let ?r1 = "[''key'' \<mapsto> ''a1'', ''TITLE'' \<mapsto> ''Deep Learning'']"
  let ?r2 = "[''key'' \<mapsto> ''a1'', ''TITLE'' \<mapsto> ''Deep Learning 2'']"
  have 1: "lastWithKey [''key''] [?r1, ?r2] (getKey ?r2 [''key'']) = Some ?r2"
    by simp
  from hash_origin_partition [of "[''key'']" "[]" "[?r1, ?r2]"]
  have "\<forall>el \<in> set [?r1, ?r2].
         getKey el [''key''] \<notin> (\<lambda>a. getKey a [''key'']) ` set []
         \<and> lastWithKey [''key''] [?r1, ?r2] (getKey el [''key'']) = Some el
         \<longrightarrow> el \<in> set (OnlyB (hashStrategy [''key''] [] [?r1, ?r2]))"
    by blast
  with 1 have "?r2 \<in> set (OnlyB (hashStrategy [''key''] [] [?r1, ?r2]))"
    by simp
  with 1 show ?thesis by simp
qed

text \<open>
  C3 as the spec states it fails. Two entries with the same key differ in their titles;
  the compared field is the key alone. As origin collection, the first of them is in
  neither \<open>AB\<close> nor \<open>OnlyA\<close>; as destiny collection against an empty origin, the first
  of them has no counterpart and is not in \<open>OnlyB\<close>.
\<close>

theorem hash_origin_partition_counterexample:
  "[''key'' \<mapsto> ''a1'', ''TITLE'' \<mapsto> ''Deep Learning'']
     \<in> set [[''key'' \<mapsto> ''a1'', ''TITLE'' \<mapsto> ''Deep Learning''],
             [''key'' \<mapsto> ''a1'', ''TITLE'' \<mapsto> ''Deep Learning 2'']]
   \<and> hashStrategy [''key'']
         [[''key'' \<mapsto> ''a1'', ''TITLE'' \<mapsto> ''Deep Learning''],
          [''key'' \<mapsto> ''a1'', ''TITLE'' \<mapsto> ''Deep Learning 2'']] []
       = Status [] [[''key'' \<mapsto> ''a1'', ''TITLE'' \<mapsto> ''Deep Learning 2'']] []
   \<and> hashStrategy [''key''] []
         [[''key'' \<mapsto> ''a1'', ''TITLE'' \<mapsto> ''Deep Learning''],
          [''key'' \<mapsto> ''a1'', ''TITLE'' \<mapsto> ''Deep Learning 2'']]
       = Status [] [] [[''key'' \<mapsto> ''a1'', ''TITLE'' \<mapsto> ''Deep Learning 2'']]
   \<and> [''key'' \<mapsto> ''a1'', ''TITLE'' \<mapsto> ''Deep Learning'']
     \<notin> set [[''key'' \<mapsto> ''a1'', ''TITLE'' \<mapsto> ''Deep Learning 2'']]"
  by (simp add: hashStrategy_def buildLookupTable_def tableGet_def getKey_def orEmpty_def
      entries_differ)

section \<open>Swapping the collections\<close>

text \<open>
  C6: the exact strategy with the two collections swapped has \<open>OnlyA\<close> and \<open>OnlyB\<close>
  swapped and an \<open>AB\<close> of the same length.
\<close>

theorem hash_swap:
  "OnlyA (hashStrategy fields destBib origBib) = OnlyB (hashStrategy fields origBib destBib)
   \<and> OnlyB (hashStrategy fields destBib origBib) = OnlyA (hashStrategy fields origBib destBib)
   \<and> length (AB (hashStrategy fields destBib origBib)) = length (AB (hashStrategy fields origBib destBib))"
proof -
  have "length (AB (hashStrategy fields destBib origBib)) = length (AB (hashStrategy fields origBib destBib))"
    unfolding hashStrategy_buckets status.sel length_map common_count by (simp only: Int_commute)
  then show ?thesis
    by (simp add: hashStrategy_buckets)
qed

text \<open>The theorem at an empty collection and a collection of one entry.\<close>

theorem hash_swap_witness:
  "OnlyA (hashStrategy [''key'', ''TITLE''] [] [[''key'' \<mapsto> ''a1'', ''TITLE'' \<mapsto> ''Deep Learning'']]) = []
   \<and> OnlyB (hashStrategy [''key'', ''TITLE''] [] [[''key'' \<mapsto> ''a1'', ''TITLE'' \<mapsto> ''Deep Learning'']])
       = [[''key'' \<mapsto> ''a1'', ''TITLE'' \<mapsto> ''Deep Learning'']]
   \<and> length (AB (hashStrategy [''key'', ''TITLE''] [] [[''key'' \<mapsto> ''a1'', ''TITLE'' \<mapsto> ''Deep Learning'']])) = 0"
proof -
  let ?r = "[''key'' \<mapsto> ''a1'', ''TITLE'' \<mapsto> ''Deep Learning'']"
  have "hashStrategy [''key'', ''TITLE''] [?r] [] = Status [] [?r] []"
    by (simp add: hashStrategy_def buildLookupTable_def tableGet_def)
  with hash_swap [of "[''key'', ''TITLE'']" "[]" "[?r]"] show ?thesis
    by simp
qed

section \<open>An empty origin collection\<close>

text \<open>
  C5, as amended. With an empty origin collection the approximate strategy returns
  \<open>AB = []\<close>, \<open>OnlyA = []\<close> and \<open>OnlyB = destBib\<close>. The exact strategy returns
  \<open>AB = []\<close> and \<open>OnlyA = []\<close>; its \<open>OnlyB\<close> is \<open>destBib\<close> when no two entries of
  \<open>destBib\<close> have the same fingerprint, and in general it holds the entries that are the
  last of \<open>destBib\<close> with their fingerprint, one for each distinct fingerprint.
\<close>

theorem empty_origin:
  "bruteforceStrategy fields [] destBib = Inr (Status [] [] destBib)
   \<and> AB (hashStrategy fields [] destBib) = []
   \<and> OnlyA (hashStrategy fields [] destBib) = []
   \<and> (distinct (map (\<lambda>el. getKey el fields) destBib)
        \<longrightarrow> OnlyB (hashStrategy fields [] destBib) = destBib)
   \<and> set (OnlyB (hashStrategy fields [] destBib))
        = {el \<in> set destBib. lastWithKey fields destBib (getKey el fields) = Some el}
   \<and> length (OnlyB (hashStrategy fields [] destBib)) = card ((\<lambda>el. getKey el fields) ` set destBib)"
proof -
  have "map snd (buildLookupTable destBib fields) = destBib"
    if "distinct (map (\<lambda>el. getKey el fields) destBib)"
    using buildLoop_fresh [OF that, of "[]"] by (simp add: buildLookupTable_def comp_def)
  then show ?thesis
    by (simp add: bruteforce_empty_origin hashStrategy_empty_origin table_values table_length)
qed

text \<open>The theorem at a destiny collection of one entry.\<close>

theorem empty_origin_witness:
  "distinct (map (\<lambda>el. getKey el [''key'', ''TITLE'']) [[''key'' \<mapsto> ''a1'', ''TITLE'' \<mapsto> ''Deep Learning'']])
   \<and> OnlyB (hashStrategy [''key'', ''TITLE''] [] [[''key'' \<mapsto> ''a1'', ''TITLE'' \<mapsto> ''Deep Learning'']])
       = [[''key'' \<mapsto> ''a1'', ''TITLE'' \<mapsto> ''Deep Learning'']]
   \<and> bruteforceStrategy [''key'', ''TITLE''] [] [[''key'' \<mapsto> ''a1'', ''TITLE'' \<mapsto> ''Deep Learning'']]
       = Inr (Status [] [] [[''key'' \<mapsto> ''a1'', ''TITLE'' \<mapsto> ''Deep Learning'']])"
  using empty_origin [of "[''key'', ''TITLE'']" "[[''key'' \<mapsto> ''a1'', ''TITLE'' \<mapsto> ''Deep Learning'']]"]
  by simp

text \<open>
  C5 as the spec states it fails for the exact strategy: of two destiny entries with one
  fingerprint only the second is returned.
\<close>

theorem empty_origin_counterexample:
  "hashStrategy [''key''] []
         [[''key'' \<mapsto> ''a1'', ''TITLE'' \<mapsto> ''Deep Learning''],
          [''key'' \<mapsto> ''a1'', ''TITLE'' \<mapsto> ''Deep Learning 2'']]
       = Status [] [] [[''key'' \<mapsto> ''a1'', ''TITLE'' \<mapsto> ''Deep Learning 2'']]
   \<and> OnlyB (hashStrategy [''key''] []
         [[''key'' \<mapsto> ''a1'', ''TITLE'' \<mapsto> ''Deep Learning''],
          [''key'' \<mapsto> ''a1'', ''TITLE'' \<mapsto> ''Deep Learning 2'']])
       \<noteq> [[''key'' \<mapsto> ''a1'', ''TITLE'' \<mapsto> ''Deep Learning''],
          [''key'' \<mapsto> ''a1'', ''TITLE'' \<mapsto> ''Deep Learning 2'']]"
  by (simp add: hashStrategy_def buildLookupTable_def tableGet_def getKey_def orEmpty_def)

section \<open>Fingerprints\<close>









lemma getKey_cong:
  "map (\<lambda>field. orEmpty (a field)) fields = map (\<lambda>field. orEmpty (b field)) fields
     \<Longrightarrow> getKey a fields = getKey b fields"
  by (simp only: getKey_def)




text \<open>
  C10: two entries that differ on the listed fields only in that one has the empty string
  where the other has nothing have the same fingerprint, and the exact strategy takes
  them for the same entry.
\<close>

theorem empty_and_absent_agree:
  assumes "\<forall>field \<in> set fields.
             a field = b field \<or> (a field = None \<and> b field = Some [])
                               \<or> (a field = Some [] \<and> b field = None)"
  shows "getKey a fields = getKey b fields \<and> hashStrategy fields [a] [b] = Status [a] [] []"
proof -
  have "\<forall>field \<in> set fields. orEmpty (a field) = orEmpty (b field)"
    using assms by (auto simp: orEmpty_def)
  then have "map (\<lambda>field. orEmpty (a field)) fields = map (\<lambda>field. orEmpty (b field)) fields"
    by simp
  then have "getKey a fields = getKey b fields"
    by (rule getKey_cong)
  then show ?thesis by (simp add: hashStrategy_singletons)
qed

text \<open>The theorem at an entry with an empty title and an entry without a title.\<close>

theorem empty_and_absent_agree_witness:
  "[''key'' \<mapsto> ''a1'', ''TITLE'' \<mapsto> ''''] ''TITLE'' = Some []
   \<and> [''key'' \<mapsto> ''a1''] ''TITLE'' = None
   \<and> getKey [''key'' \<mapsto> ''a1'', ''TITLE'' \<mapsto> ''''] [''key'', ''TITLE'']
     = getKey [''key'' \<mapsto> ''a1''] [''key'', ''TITLE'']
   \<and> hashStrategy [''key'', ''TITLE''] [[''key'' \<mapsto> ''a1'', ''TITLE'' \<mapsto> '''']] [[''key'' \<mapsto> ''a1'']]
     = Status [[''key'' \<mapsto> ''a1'', ''TITLE'' \<mapsto> '''']] [] []"
  using empty_and_absent_agree [of "[''key'', ''TITLE'']"
      "[''key'' \<mapsto> ''a1'', ''TITLE'' \<mapsto> '''']" "[''key'' \<mapsto> ''a1'']"]
  by simp

section \<open>Normalizing the field names\<close>

text \<open>
  C9: the result has the length of the list of requested names; at every position
  stands \<open>key\<close> where \<open>key\<close> was requested, and the upper-cased name otherwise.
\<close>

theorem normalizeFields_spec:
  "length (normalizeFields toUpperCase fields) = length fields
   \<and> (\<forall>i < length fields.
         normalizeFields toUpperCase fields ! i
           = (if fields ! i = ''key'' then ''key'' else toUpperCase (fields ! i)))"
  by (simp add: normalizeFields_def)

lemma toUpperCaseASCII_title: "toUpperCaseASCII ''title'' = ''TITLE''"
  by (simp add: toUpperCaseASCII_def)

text \<open>The theorem at the default field list \<open>key,title\<close>.\<close>

theorem normalizeFields_spec_witness:
  "length (normalizeFields toUpperCaseASCII [''key'', ''title'']) = 2
   \<and> normalizeFields toUpperCaseASCII [''key'', ''title''] ! 0 = ''key''
   \<and> normalizeFields toUpperCaseASCII [''key'', ''title''] ! 1 = ''TITLE''"
  using normalizeFields_spec [of toUpperCaseASCII "[''key'', ''title'']"]
  by (simp add: toUpperCaseASCII_title)

end
